theory Spec2Isabelle
  imports Complex_Main "HOL-Library.AList"
begin

section \<open>SmartCache: the adaptive cache with scored eviction\<close>

text \<open>
  A shallow embedding of the class \<open>SmartCache\<close> (cache/SmartCache.ts) and of the two
  interfaces it imports from the type declarations, \<open>CacheOptions\<close> and
  \<open>SmartCacheEntry\<close>.

  \<^item> A JavaScript \<open>Map\<close> keeps its keys distinct and in insertion order; \<open>Map.set\<close> on
    a key that is present replaces the value in place, on a new key it appends. It is an
    association list here, with \<open>map_of\<close> for \<open>Map.get\<close>, \<open>AList.update\<close> for
    \<open>Map.set\<close> and \<open>AList.delete\<close> for \<open>Map.delete\<close>; \<open>Map.size\<close> is the length.
  \<^item> \<open>Date.now()\<close> is the parameter \<open>now\<close> of each operation, in milliseconds: the
    calls are synchronous between their clock readings, and one call reads one value.
  \<^item> The score of an entry is a JavaScript number. It is a rational number here, so the
    arithmetic of the score is exact where the code rounds to a double.
    \<open>Math.ceil(size * 0.2)\<close> is the ceiling of the exact product: the double nearest
    to 0.2 exceeds one fifth by a relative \<open>2^-54\<close>, too little to carry the product
    across an integer for any size a \<open>Map\<close> can have.
  \<^item> The stored values are of an arbitrary type \<open>'v\<close>. What the class asks of the
    platform (\<open>Blob\<close>, \<open>JSON\<close>, \<open>btoa\<close>, \<open>atob\<close>) is taken as a parameter, the record
    \<open>platform\<close>.
  \<^item> No method of the class has a \<open>throw\<close>: \<open>set\<close> and \<open>invalidateByTag\<close> return the
    new state, \<open>get\<close> returns \<open>None\<close> for \<open>undefined\<close> together with the new state.
    The values of \<open>'v\<close> are defined ones: a stored \<open>undefined\<close> reads as a miss.
  \<^item> Persistence writes the entries to the browser's storage and reads them back in the
    constructor. Both are skipped where there is no \<open>window\<close>, and the model is of that
    case: the state is the memory of the object.
\<close>

type_synonym key = string

record 'v SmartCacheEntry =
  value_entry :: 'v
  timestamp :: int
  accessCount :: nat
  lastAccessed :: int
  size_entry :: nat
  tags :: "string list option"

record CacheOptions =
  ttl_opt :: "int option"
  maxSize_opt :: "int option"
  compression_opt :: "bool option"

record 'v platform =
  calculateSize :: "'v \<Rightarrow> nat"
  compress :: "'v \<Rightarrow> 'v"
  decompress :: "'v \<Rightarrow> 'v"
  isCompressed :: "'v \<Rightarrow> bool"

record 'v SmartCache =
  cache :: "(key \<times> 'v SmartCacheEntry) list"
  hitCount :: nat
  missCount :: nat
  compressionEnabled :: bool
  maxSize :: int
  ttl :: int
  accessPatterns :: "(key \<times> int list) list"

definition compressionThreshold :: nat where
  "compressionThreshold = 1024"

text \<open>
  The constructor. \<open>options.ttl || 300000\<close> takes the default when the option is
  undefined and also when it is 0; a negative number is kept. The TTL is a whole number
  of milliseconds and \<open>maxSize\<close> a whole number of entries.
\<close>

definition ttl_of :: "CacheOptions \<Rightarrow> int" where
  "ttl_of options = (case ttl_opt options of None \<Rightarrow> 300000
                     | Some t \<Rightarrow> if t = 0 then 300000 else t)"

definition maxSize_of :: "CacheOptions \<Rightarrow> int" where
  "maxSize_of options = (case maxSize_opt options of None \<Rightarrow> 1000
                         | Some m \<Rightarrow> if m = 0 then 1000 else m)"

definition SmartCache_new :: "CacheOptions \<Rightarrow> 'v SmartCache" where
  "SmartCache_new options =
     \<lparr> cache = [],
       hitCount = 0,
       missCount = 0,
       compressionEnabled = (case compression_opt options of None \<Rightarrow> False | Some b \<Rightarrow> b),
       maxSize = maxSize_of options,
       ttl = ttl_of options,
       accessPatterns = [] \<rparr>"

subsection \<open>The access pattern of a key\<close>

definition updateAccessPattern :: "int \<Rightarrow> key \<Rightarrow> 'v SmartCache \<Rightarrow> 'v SmartCache" where
  "updateAccessPattern now k c =
     (let pattern = (case map_of (accessPatterns c) k of None \<Rightarrow> [] | Some p \<Rightarrow> p) @ [now];
          pattern' = (if length pattern > 100 then tl pattern else pattern)
      in c\<lparr>accessPatterns := AList.update k pattern' (accessPatterns c)\<rparr>)"

definition getAccessFrequency :: "int \<Rightarrow> key \<Rightarrow> 'v SmartCache \<Rightarrow> rat" where
  "getAccessFrequency now k c =
     (let pattern = (case map_of (accessPatterns c) k of None \<Rightarrow> [] | Some p \<Rightarrow> p)
      in if length pattern < 2 then 0
         else of_nat (length (filter (\<lambda>time. now - time < 60000) pattern)) / 60)"

subsection \<open>get\<close>

definition get :: "'v platform \<Rightarrow> int \<Rightarrow> key \<Rightarrow> 'v SmartCache \<Rightarrow> 'v option \<times> 'v SmartCache" where
  "get P now k c =
     (case map_of (cache c) k of
        None \<Rightarrow> (None, c\<lparr>missCount := missCount c + 1\<rparr>)
      | Some entry \<Rightarrow>
          if now - timestamp entry > ttl c
          then (None, c\<lparr>cache := AList.delete k (cache c), missCount := missCount c + 1\<rparr>)
          else
            let c1 = updateAccessPattern now k c;
                entry' = entry\<lparr>accessCount := accessCount entry + 1, lastAccessed := now\<rparr>;
                c2 = c1\<lparr>cache := AList.update k entry' (cache c1), hitCount := hitCount c1 + 1\<rparr>;
                v = value_entry entry
            in (Some (if compressionEnabled c \<and> isCompressed P v then decompress P v else v), c2))"

subsection \<open>Eviction\<close>

definition score :: "int \<Rightarrow> 'v SmartCache \<Rightarrow> key \<Rightarrow> 'v SmartCacheEntry \<Rightarrow> rat" where
  "score now c k entry =
     (let age = of_int (now - timestamp entry);
          timeSinceAccess = of_int (now - lastAccessed entry);
          accessFrequency = getAccessFrequency now k c;
          sizeWeight = of_nat (size_entry entry) / 1024
      in (age * (3 / 10)) +
         (timeSinceAccess * (4 / 10)) +
         (1 / (of_nat (accessCount entry) + 1) * (2 / 10)) +
         (sizeWeight * (1 / 10)) -
         (accessFrequency * (3 / 10)))"

text \<open>
  \<open>scores.sort((a, b) => b.score - a.score)\<close>: descending by score, and stable, so
  entries of equal score keep the order of the \<open>Map\<close>. \<open>sort_key\<close> is the stable
  insertion sort, ascending in its key; the key is the negated score.
\<close>

definition sortScores :: "(key \<times> rat) list \<Rightarrow> (key \<times> rat) list" where
  "sortScores scores = sort_key (\<lambda>p. - snd p) scores"

text \<open>The loop \<open>for (let i = 0; i < evictCount; i++)\<close> over the head of the ranking.\<close>

primrec evictLoop :: "key list \<Rightarrow> 'v SmartCache \<Rightarrow> 'v SmartCache" where
  "evictLoop [] c = c"
| "evictLoop (k # ks) c =
     evictLoop ks (c\<lparr>cache := AList.delete k (cache c),
                     accessPatterns := AList.delete k (accessPatterns c)\<rparr>)"

definition evictCount :: "'v SmartCache \<Rightarrow> nat" where
  "evictCount c = nat \<lceil>rat_of_nat (length (cache c)) * (2 / 10)\<rceil>"

definition ranking :: "int \<Rightarrow> 'v SmartCache \<Rightarrow> key list" where
  "ranking now c = map fst (sortScores (map (\<lambda>(k, entry). (k, score now c k entry)) (cache c)))"

definition intelligentEviction :: "int \<Rightarrow> 'v SmartCache \<Rightarrow> 'v SmartCache" where
  "intelligentEviction now c = evictLoop (take (evictCount c) (ranking now c)) c"

subsection \<open>set\<close>

definition set_cache ::
  "'v platform \<Rightarrow> int \<Rightarrow> key \<Rightarrow> 'v \<Rightarrow> string list option \<Rightarrow> 'v SmartCache \<Rightarrow> 'v SmartCache" where
  "set_cache P now k v tgs c =
     (let size0 = calculateSize P v;
          compressing = (compressionEnabled c \<and> size0 > compressionThreshold);
          finalValue = (if compressing then compress P v else v);
          size1 = (if compressing then calculateSize P finalValue else size0);
          c1 = (if int (length (cache c)) \<ge> maxSize c then intelligentEviction now c else c);
          entry = \<lparr> value_entry = finalValue, timestamp = now, accessCount = 0,
                    lastAccessed = now, size_entry = size1, tags = tgs \<rparr>;
          c2 = c1\<lparr>cache := AList.update k entry (cache c1)\<rparr>
      in updateAccessPattern now k c2)"

subsection \<open>Tag invalidation, the sweeper, clear\<close>

definition hasTag :: "string \<Rightarrow> 'v SmartCacheEntry \<Rightarrow> bool" where
  "hasTag tag entry = (case tags entry of None \<Rightarrow> False | Some ts \<Rightarrow> tag \<in> set ts)"

text \<open>
  \<open>for (const [key, entry] of this.cache.entries())\<close>, deleting the entry the loop is at:
  the iterator of a \<open>Map\<close> goes on to the next entry. The loop is a recursion over the
  entries the \<open>Map\<close> had when it began.
\<close>

primrec invalidateLoop :: "string \<Rightarrow> (key \<times> 'v SmartCacheEntry) list \<Rightarrow> 'v SmartCache \<Rightarrow> 'v SmartCache" where
  "invalidateLoop tag [] c = c"
| "invalidateLoop tag (p # ps) c =
     invalidateLoop tag ps
       (if hasTag tag (snd p) then c\<lparr>cache := AList.delete (fst p) (cache c)\<rparr> else c)"

definition invalidateByTag :: "string \<Rightarrow> 'v SmartCache \<Rightarrow> 'v SmartCache" where
  "invalidateByTag tag c = invalidateLoop tag (cache c) c"

primrec cleanupLoop :: "int \<Rightarrow> (key \<times> 'v SmartCacheEntry) list \<Rightarrow> 'v SmartCache \<Rightarrow> 'v SmartCache" where
  "cleanupLoop now [] c = c"
| "cleanupLoop now (p # ps) c =
     cleanupLoop now ps
       (if now - timestamp (snd p) > ttl c
        then c\<lparr>cache := AList.delete (fst p) (cache c),
                accessPatterns := AList.delete (fst p) (accessPatterns c)\<rparr>
        else c)"

definition cleanup :: "int \<Rightarrow> 'v SmartCache \<Rightarrow> 'v SmartCache" where
  "cleanup now c = cleanupLoop now (cache c) c"

definition clear :: "'v SmartCache \<Rightarrow> 'v SmartCache" where
  "clear c = c\<lparr>cache := [], accessPatterns := [], hitCount := 0, missCount := 0\<rparr>"

subsection \<open>mget\<close>

text \<open>\<open>mget\<close> awaits one \<open>get\<close> after the other and collects the values that are defined.\<close>

primrec mgetLoop ::
  "'v platform \<Rightarrow> int \<Rightarrow> key list \<Rightarrow> (key \<times> 'v) list \<Rightarrow> 'v SmartCache
     \<Rightarrow> (key \<times> 'v) list \<times> 'v SmartCache" where
  "mgetLoop P now [] results c = (results, c)"
| "mgetLoop P now (k # ks) results c =
     (case fst (get P now k c) of
        None \<Rightarrow> mgetLoop P now ks results (snd (get P now k c))
      | Some v \<Rightarrow> mgetLoop P now ks (AList.update k v results) (snd (get P now k c)))"


subsection \<open>Sequences of calls\<close>

text \<open>
  A caller awaits each call before the next. The calls are \<open>get\<close>, \<open>set\<close>,
  \<open>invalidateByTag\<close> and \<open>clear\<close>, and the tick of the timer that runs \<open>cleanup\<close>.
  \<open>mget\<close> is a sequence of \<open>get\<close> calls. \<open>mset\<close> starts the \<open>set\<close> calls of its entries
  together, without awaiting one before the next: it is not such a sequence and is not
  among the calls.
\<close>

datatype 'v call =
    CallGet int key
  | CallSet int key 'v "string list option"
  | CallInvalidateByTag string
  | CallCleanup int
  | CallClear

fun perform :: "'v platform \<Rightarrow> 'v call \<Rightarrow> 'v SmartCache \<Rightarrow> 'v SmartCache" where
  "perform P (CallGet now k) c = snd (get P now k c)"
| "perform P (CallSet now k v tgs) c = set_cache P now k v tgs c"
| "perform P (CallInvalidateByTag tag) c = invalidateByTag tag c"
| "perform P (CallCleanup now) c = cleanup now c"
| "perform P CallClear c = clear c"

primrec run :: "'v platform \<Rightarrow> 'v call list \<Rightarrow> 'v SmartCache \<Rightarrow> 'v SmartCache" where
  "run P [] c = c"
| "run P (x # xs) c = run P xs (perform P x c)"

subsection \<open>Concrete caches\<close>

text \<open>
  A platform for values that are plain ASCII strings without characters that JSON
  escapes: \<open>JSON.stringify\<close> adds the two quotes, and a string is not a compressed
  object. The caches below leave compression off, so the codec is never called.
\<close>

definition textPlatform :: "string platform" where
  "textPlatform = \<lparr> calculateSize = (\<lambda>v. length v + 2), compress = (\<lambda>v. v),
                     decompress = (\<lambda>v. v), isCompressed = (\<lambda>v. False) \<rparr>"

definition options3 :: CacheOptions where
  "options3 = \<lparr> ttl_opt = None, maxSize_opt = Some 3, compression_opt = None \<rparr>"

definition cache3 :: "string SmartCache" where
  "cache3 = SmartCache_new options3"

definition options50 :: CacheOptions where
  "options50 = \<lparr> ttl_opt = Some 50, maxSize_opt = None, compression_opt = None \<rparr>"

definition cacheX :: "string SmartCache" where
  "cacheX = set_cache textPlatform 0 ''x'' ''X'' None (SmartCache_new options50)"

definition entryX :: "string SmartCacheEntry" where
  "entryX = \<lparr> value_entry = ''X'', timestamp = 0, accessCount = 0, lastAccessed = 0,
               size_entry = 3, tags = None \<rparr>"

definition full3 :: "string SmartCache" where
  "full3 = run textPlatform
     [CallSet 0 ''a'' ''A'' None, CallSet 0 ''b'' ''B'' None, CallSet 0 ''c'' ''C'' None] cache3"

definition tagged3 :: "string SmartCache" where
  "tagged3 = run textPlatform
     [CallSet 0 ''u1'' ''A'' (Some [''user'']), CallSet 0 ''p1'' ''B'' (Some [''product'']),
      CallSet 0 ''u2'' ''C'' (Some [''user'', ''vip''])] cache3"

subsection \<open>The scenario of three keys and a fourth\<close>


text \<open>The entries and the state the scenario reaches before \<open>d\<close> is inserted.\<close>

definition fresh :: "'v \<Rightarrow> nat \<Rightarrow> int \<Rightarrow> 'v SmartCacheEntry" where
  "fresh v sz t = \<lparr> value_entry = v, timestamp = t, accessCount = 0, lastAccessed = t,
                    size_entry = sz, tags = None \<rparr>"



subsection \<open>The tracker and the entries\<close>

text \<open>The access patterns are of keys that have an entry.\<close>

definition tracker_inv :: "'v SmartCache \<Rightarrow> bool" where
  "tracker_inv c = (fst ` set (accessPatterns c) \<subseteq> fst ` set (cache c))"

section \<open>Properties\<close>

subsection \<open>Auxiliary facts\<close>

lemma delete_filter: "AList.delete k al = filter (\<lambda>p. fst p \<noteq> k) al"
  by (induction al) (auto simp: AList.delete_eq)

lemma map_of_delete_same: "map_of (AList.delete k al) k = None"
  by (simp add: AList.delete_conv')


lemma evictCount_eq: "evictCount c = (length (cache c) + 4) div 5"
proof -
  have "rat_of_nat (length (cache c)) * (2 / 10) = of_int (int (length (cache c))) / of_int 5"
    by simp
  then have "\<lceil>rat_of_nat (length (cache c)) * (2 / 10)\<rceil> = - (- int (length (cache c)) div 5)"
    by (simp only: ceiling_divide_eq_div)
  then show ?thesis unfolding evictCount_def by simp
qed

lemma new_fields:
  "cache (SmartCache_new options) = []"
  "accessPatterns (SmartCache_new options) = []"
  "maxSize (SmartCache_new options) = maxSize_of options"
  "ttl (SmartCache_new options) = ttl_of options"
  by (simp_all add: SmartCache_new_def)

lemma updateAccessPattern_fields:
  "cache (updateAccessPattern now k c) = cache c"
  "maxSize (updateAccessPattern now k c) = maxSize c"
  "ttl (updateAccessPattern now k c) = ttl c"
  "compressionEnabled (updateAccessPattern now k c) = compressionEnabled c"
  by (simp_all add: updateAccessPattern_def Let_def)

lemma evictLoop_cache:
  "cache (evictLoop ks c) = filter (\<lambda>p. fst p \<notin> set ks) (cache c)"
  by (induction ks arbitrary: c) (auto simp: delete_filter intro: filter_cong)

lemma evictLoop_accessPatterns:
  "accessPatterns (evictLoop ks c) = filter (\<lambda>p. fst p \<notin> set ks) (accessPatterns c)"
  by (induction ks arbitrary: c) (auto simp: delete_filter intro: filter_cong)

lemma evictLoop_fields:
  "maxSize (evictLoop ks c) = maxSize c"
  "ttl (evictLoop ks c) = ttl c"
  "compressionEnabled (evictLoop ks c) = compressionEnabled c"
  by (induction ks arbitrary: c) auto

lemma set_ranking: "set (ranking now c) = fst ` set (cache c)"
  by (force simp: ranking_def sortScores_def)

lemma length_ranking: "length (ranking now c) = length (cache c)"
  by (simp add: ranking_def sortScores_def)

lemma intelligentEviction_cache:
  "cache (intelligentEviction now c) =
     filter (\<lambda>p. fst p \<notin> set (take (evictCount c) (ranking now c))) (cache c)"
  by (simp add: intelligentEviction_def evictLoop_cache)

lemma intelligentEviction_fields:
  "maxSize (intelligentEviction now c) = maxSize c"
  "ttl (intelligentEviction now c) = ttl c"
  "compressionEnabled (intelligentEviction now c) = compressionEnabled c"
  by (simp_all add: intelligentEviction_def evictLoop_fields)


lemma set_cache_cache:
  "cache (set_cache P now k v tgs c) =
     AList.update k
       \<lparr> value_entry = (if compressionEnabled c \<and> calculateSize P v > compressionThreshold
                         then compress P v else v),
         timestamp = now, accessCount = 0, lastAccessed = now,
         size_entry = (if compressionEnabled c \<and> calculateSize P v > compressionThreshold
                       then calculateSize P (compress P v) else calculateSize P v),
         tags = tgs \<rparr>
       (cache (if int (length (cache c)) \<ge> maxSize c then intelligentEviction now c else c))"
  by (simp add: set_cache_def Let_def updateAccessPattern_fields)

lemma set_cache_fields:
  "maxSize (set_cache P now k v tgs c) = maxSize c"
  "ttl (set_cache P now k v tgs c) = ttl c"
  "compressionEnabled (set_cache P now k v tgs c) = compressionEnabled c"
  by (simp_all add: set_cache_def Let_def updateAccessPattern_fields intelligentEviction_fields)


lemma get_absent: "map_of (cache c) k = None \<Longrightarrow> fst (get P now k c) = None"
  by (simp add: get_def)



lemma invalidateLoop_cache:
  "cache (invalidateLoop tag ps c) =
     filter (\<lambda>q. fst q \<notin> fst ` {p \<in> set ps. hasTag tag (snd p)}) (cache c)"
  by (induction ps arbitrary: c) (auto simp: delete_filter intro!: filter_cong)



lemma cleanupLoop_cache:
  "cache (cleanupLoop now ps c) =
     filter (\<lambda>q. fst q \<notin> fst ` {p \<in> set ps. now - timestamp (snd p) > ttl c}) (cache c)"
  by (induction ps arbitrary: c) (auto simp: delete_filter intro!: filter_cong)

lemma cleanupLoop_accessPatterns:
  "accessPatterns (cleanupLoop now ps c) =
     filter (\<lambda>q. fst q \<notin> fst ` {p \<in> set ps. now - timestamp (snd p) > ttl c}) (accessPatterns c)"
  by (induction ps arbitrary: c) (auto simp: delete_filter intro!: filter_cong)



subsection \<open>The capacity invariant\<close>



subsection \<open>Expiry in get\<close>

text \<open>
  Claim C2. An entry under a key was stored at the time \<open>timestamp entry\<close> and is still
  in the store. A \<open>get\<close> of the key at a time more than \<open>ttl\<close> later returns
  \<open>undefined\<close> and removes the entry from the store on the way; a \<open>get\<close> at a time
  up to \<open>ttl\<close> later returns the stored value, decompressed when compression is on and
  the value is a compressed one.
\<close>

theorem get_ttl_correct:
  assumes "map_of (cache c) k = Some entry"
  shows "(now - timestamp entry > ttl c \<longrightarrow>
            fst (get P now k c) = None \<and> map_of (cache (snd (get P now k c))) k = None)
       \<and> (now - timestamp entry \<le> ttl c \<longrightarrow>
            fst (get P now k c) =
              Some (if compressionEnabled c \<and> isCompressed P (value_entry entry)
                    then decompress P (value_entry entry) else value_entry entry))"
  using assms by (simp add: get_def Let_def map_of_delete_same)

text \<open>
  The time an entry was stored at is the \<open>timestamp\<close> that \<open>set\<close> gave it (the entry
  in \<open>set_cache_cache\<close>); a \<open>get\<close> that keeps an entry keeps its \<open>timestamp\<close>.
\<close>

lemma get_keeps_timestamp:
  assumes "map_of (cache (snd (get P now k' c))) k = Some e'"
  shows "\<exists>e. map_of (cache c) k = Some e \<and> timestamp e' = timestamp e"
proof (cases "map_of (cache c) k'")
  case None
  with assms show ?thesis by (simp add: get_def)
next
  case (Some entry)
  with assms show ?thesis
    by (cases "k = k'")
       (auto simp: get_def Let_def updateAccessPattern_fields AList.update_conv'
          AList.delete_conv' split: if_splits)
qed

lemma cacheX_cache: "cache cacheX = [(''x'', entryX)]"
  by (simp add: cacheX_def entryX_def set_cache_def SmartCache_new_def options50_def
      textPlatform_def compressionThreshold_def Let_def updateAccessPattern_def maxSize_of_def
      ttl_of_def)

lemma cacheX_fields: "ttl cacheX = 50" "compressionEnabled cacheX = False"
  by (simp_all add: cacheX_def set_cache_fields SmartCache_new_def options50_def ttl_of_def)

theorem get_ttl_correct_witness:
  "map_of (cache cacheX) ''x'' = Some entryX
   \<and> fst (get textPlatform 60 ''x'' cacheX) = None
   \<and> map_of (cache (snd (get textPlatform 60 ''x'' cacheX))) ''x'' = None
   \<and> fst (get textPlatform 50 ''x'' cacheX) = Some ''X''"
proof -
  have h: "map_of (cache cacheX) ''x'' = Some entryX" by (simp add: cacheX_cache)
  from get_ttl_correct [OF h, of 60 textPlatform] get_ttl_correct [OF h, of 50 textPlatform] h
  show ?thesis by (simp add: cacheX_fields entryX_def)
qed

subsection \<open>Invalidation by tag\<close>

text \<open>
  Claim C6. After \<open>invalidateByTag tag\<close>, a \<open>get\<close> of any key whose entry carried the
  tag at the call returns \<open>undefined\<close>, and no entry left in the store carries the tag.
  The class keeps no index of tags: the keys of a tag are the keys of the entries that
  carry it.
\<close>

theorem invalidateByTag_consistent:
  "(\<forall>k entry. map_of (cache c) k = Some entry \<and> hasTag tag entry \<longrightarrow>
       fst (get P now k (invalidateByTag tag c)) = None)
   \<and> (\<forall>p \<in> set (cache (invalidateByTag tag c)). \<not> hasTag tag (snd p))"
proof (intro conjI allI impI ballI)
  fix k entry
  assume a: "map_of (cache c) k = Some entry \<and> hasTag tag entry"
  then have "(k, entry) \<in> set (cache c)" by (auto dest: map_of_SomeD)
  with a have "k \<in> fst ` {p \<in> set (cache c). hasTag tag (snd p)}" by force
  moreover have "fst ` set (cache (invalidateByTag tag c))
      \<inter> fst ` {p \<in> set (cache c). hasTag tag (snd p)} = {}"
    by (auto simp: invalidateByTag_def invalidateLoop_cache)
  ultimately have "k \<notin> fst ` set (cache (invalidateByTag tag c))" by blast
  then have "map_of (cache (invalidateByTag tag c)) k = None"
    by (simp add: map_of_eq_None_iff)
  then show "fst (get P now k (invalidateByTag tag c)) = None" by (rule get_absent)
next
  fix p
  assume "p \<in> set (cache (invalidateByTag tag c))"
  then show "\<not> hasTag tag (snd p)"
    by (auto simp: invalidateByTag_def invalidateLoop_cache)
qed

theorem invalidateByTag_consistent_witness:
  "map_of (cache tagged3) ''u1'' = Some ((fresh ''A'' 3 0)\<lparr>tags := Some [''user'']\<rparr>)
   \<and> hasTag ''user'' ((fresh ''A'' 3 0)\<lparr>tags := Some [''user'']\<rparr>)
   \<and> fst (get textPlatform 0 ''u1'' (invalidateByTag ''user'' tagged3)) = None
   \<and> map fst (cache (invalidateByTag ''user'' tagged3)) = [''p1'']"
proof -
  have h: "map_of (cache tagged3) ''u1'' = Some ((fresh ''A'' 3 0)\<lparr>tags := Some [''user'']\<rparr>)
      \<and> hasTag ''user'' ((fresh ''A'' 3 0)\<lparr>tags := Some [''user'']\<rparr>)"
    by code_simp
  with invalidateByTag_consistent [of tagged3 "''user''" textPlatform 0]
  have "fst (get textPlatform 0 ''u1'' (invalidateByTag ''user'' tagged3)) = None" by blast
  moreover have "map fst (cache (invalidateByTag ''user'' tagged3)) = [''p1'']" by code_simp
  ultimately show ?thesis using h by simp
qed

subsection \<open>No value is too large\<close>




subsection \<open>The size of an eviction batch\<close>

lemma ceil_fifth: "nat \<lceil>rat_of_nat n * (2 / 10)\<rceil> = (n + 4) div 5"
proof -
  have "rat_of_nat n * (2 / 10) = of_int (int n) / of_int 5" by simp
  then have "\<lceil>rat_of_nat n * (2 / 10)\<rceil> = - (- int n div 5)"
    by (simp only: ceiling_divide_eq_div)
  then show ?thesis by simp
qed

lemma distinct_ranking:
  assumes "distinct (map fst (cache c))"
  shows "distinct (ranking now c)"
proof -
  let ?ps = "map (\<lambda>(k, entry). (k, score now c k entry)) (cache c)"
  have keys: "map fst ?ps = map fst (cache c)" by (induction "cache c") (auto simp: case_prod_beta)
  have "distinct (map fst ?ps)" unfolding keys by (rule assms)
  then have "distinct ?ps \<and> inj_on fst (set ?ps)" by (simp only: distinct_map)
  then have "distinct (sortScores ?ps) \<and> inj_on fst (set (sortScores ?ps))"
    by (simp add: sortScores_def)
  then show ?thesis unfolding ranking_def by (simp only: distinct_map)
qed

lemma length_filter_keys:
  assumes "distinct (map fst xs)" "distinct ks" "set ks \<subseteq> fst ` set xs"
  shows "length (filter (\<lambda>p. fst p \<notin> set ks) xs) = length xs - length ks"
proof -
  let ?fs = "filter (\<lambda>k. k \<in> set ks) (map fst xs)"
  have "length (filter (\<lambda>p. fst p \<in> set ks) xs) = length (map fst (filter (\<lambda>p. fst p \<in> set ks) xs))"
    by simp
  also have "map fst (filter (\<lambda>p. fst p \<in> set ks) xs) = ?fs"
    by (simp add: filter_map comp_def)
  finally have l: "length (filter (\<lambda>p. fst p \<in> set ks) xs) = length ?fs" .
  have "distinct ?fs" using assms(1) by (rule distinct_filter)
  then have "card (set ?fs) = length ?fs" by (rule distinct_card)
  moreover have "set ?fs = set ks" using assms(3) by auto
  moreover have "card (set ks) = length ks" using assms(2) by (rule distinct_card)
  ultimately have "length (filter (\<lambda>p. fst p \<in> set ks) xs) = length ks" using l by simp
  moreover have "length (filter (\<lambda>p. fst p \<in> set ks) xs)
      + length (filter (\<lambda>p. \<not> fst p \<in> set ks) xs) = length xs"
    by (rule sum_length_filter_compl)
  ultimately show ?thesis by simp
qed

lemma evictCount_le: "evictCount c \<le> length (cache c)"
  by (simp add: evictCount_eq)

lemma victims_facts:
  "set (take (evictCount c) (ranking now c)) \<subseteq> fst ` set (cache c)"
  "length (take (evictCount c) (ranking now c)) = evictCount c"
  using set_take_subset [of "evictCount c" "ranking now c"] evictCount_le [of c]
  by (simp_all add: set_ranking length_ranking)

lemma intelligentEviction_length:
  assumes "distinct (map fst (cache c))"
  shows "length (cache (intelligentEviction now c)) = length (cache c) - evictCount c"
proof -
  have d: "distinct (take (evictCount c) (ranking now c))"
    using distinct_ranking [OF assms] by (rule distinct_take)
  from length_filter_keys [OF assms d victims_facts(1)] show ?thesis
    unfolding intelligentEviction_cache victims_facts(2) .
qed

lemma evicted_subset:
  "fst ` set (cache c) - fst ` set (cache (set_cache P now k v tgs c))
     \<subseteq> set (take (evictCount c) (ranking now c))"
  by (auto simp: set_cache_cache AList.dom_update intelligentEviction_cache)

text \<open>
  Claim C4. The store has distinct keys, as a \<open>Map\<close> has. The keys that a \<open>set\<close> call
  removes from the store are at most \<open>ceil(size * 0.2)\<close>; the eviction leaves exactly
  \<open>size - ceil(size * 0.2)\<close> entries, never more removed; and it leaves an entry
  whenever the store had more than one.
\<close>

theorem eviction_batch_bound:
  assumes "distinct (map fst (cache c))"
  shows "card (fst ` set (cache c) - fst ` set (cache (set_cache P now k v tgs c)))
           \<le> nat \<lceil>rat_of_nat (length (cache c)) * (2 / 10)\<rceil>
       \<and> length (cache (intelligentEviction now c))
           = length (cache c) - nat \<lceil>rat_of_nat (length (cache c)) * (2 / 10)\<rceil>
       \<and> (1 < length (cache c) \<longrightarrow> cache (intelligentEviction now c) \<noteq> [])"
proof -
  let ?victims = "take (evictCount c) (ranking now c)"
  have "card (fst ` set (cache c) - fst ` set (cache (set_cache P now k v tgs c))) \<le> card (set ?victims)"
    by (rule card_mono [OF _ evicted_subset]) simp
  also have "\<dots> \<le> length ?victims" by (rule card_length)
  finally have a: "card (fst ` set (cache c) - fst ` set (cache (set_cache P now k v tgs c))) \<le> evictCount c"
    by (simp add: victims_facts(2))
  have b: "length (cache (intelligentEviction now c)) = length (cache c) - evictCount c"
    by (rule intelligentEviction_length [OF assms])
  have "1 < length (cache c) \<longrightarrow> 0 < length (cache (intelligentEviction now c))"
    unfolding b by (simp add: evictCount_eq) linarith
  then have c: "1 < length (cache c) \<longrightarrow> cache (intelligentEviction now c) \<noteq> []"
    by (simp only: length_greater_0_conv)
  from a b c show ?thesis unfolding evictCount_def by (intro conjI)
qed

lemma full3_cache:
  "cache full3 = [(''a'', fresh ''A'' 3 0), (''b'', fresh ''B'' 3 0), (''c'', fresh ''C'' 3 0)]"
  by code_simp


theorem eviction_batch_bound_witness:
  "distinct (map fst (cache full3))
   \<and> 1 < length (cache full3)
   \<and> card (fst ` set (cache full3) - fst ` set (cache (set_cache textPlatform 5 ''d'' ''D'' None full3))) \<le> 1
   \<and> length (cache (intelligentEviction 5 full3)) = 2
   \<and> cache (intelligentEviction 5 full3) \<noteq> []"
proof -
  have h: "distinct (map fst (cache full3))" by (simp add: full3_cache)
  have l: "1 < length (cache full3)" by (simp add: full3_cache)
  have n: "nat \<lceil>rat_of_nat (length (cache full3)) * (2 / 10)\<rceil> = 1"
    unfolding ceil_fifth by (simp add: full3_cache)
  note b = eviction_batch_bound [OF h, of textPlatform 5 "''d''" "''D''" None, unfolded n]
  from b l have "cache (intelligentEviction 5 full3) \<noteq> []" by blast
  moreover from b have "length (cache (intelligentEviction 5 full3)) = 2"
    by (simp add: full3_cache)
  ultimately show ?thesis using b h l by blast
qed

subsection \<open>Eviction on every set in a full cache\<close>








subsection \<open>Which key the scenario evicts\<close>














subsection \<open>Access patterns that outlive their entry\<close>

text \<open>
  Eviction, the sweeper and \<open>clear\<close> delete the access pattern of a key together with
  its entry, and \<open>set\<close> records an access of the key it stores: they keep the access
  patterns within the keys of the store.
\<close>

lemma filter_keys_subset:
  assumes "fst ` set xs \<subseteq> fst ` set ys"
  shows "fst ` set (filter (\<lambda>p. Q (fst p)) xs) \<subseteq> fst ` set (filter (\<lambda>p. Q (fst p)) ys)"
  using assms by force

lemma evictLoop_tracker: "tracker_inv c \<Longrightarrow> tracker_inv (evictLoop ks c)"
  unfolding tracker_inv_def evictLoop_cache evictLoop_accessPatterns
  by (rule filter_keys_subset)

lemma intelligentEviction_tracker: "tracker_inv c \<Longrightarrow> tracker_inv (intelligentEviction now c)"
  unfolding intelligentEviction_def by (rule evictLoop_tracker)

lemma updateAccessPattern_keys:
  "fst ` set (accessPatterns (updateAccessPattern now k c)) = {k} \<union> fst ` set (accessPatterns c)"
  by (simp add: updateAccessPattern_def Let_def AList.dom_update)

lemma set_cache_tracker:
  assumes "tracker_inv c"
  shows "tracker_inv (set_cache P now k v tgs c)"
proof -
  let ?c1 = "if maxSize c \<le> int (length (cache c)) then intelligentEviction now c else c"
  have "tracker_inv ?c1"
    using assms by (simp add: intelligentEviction_tracker)
  then have inv: "fst ` set (accessPatterns ?c1) \<subseteq> fst ` set (cache ?c1)"
    by (simp only: tracker_inv_def)
  have a: "fst ` set (accessPatterns (set_cache P now k v tgs c))
      = {k} \<union> fst ` set (accessPatterns ?c1)"
    by (simp add: set_cache_def Let_def updateAccessPattern_keys)
  have b: "fst ` set (cache (set_cache P now k v tgs c)) = {k} \<union> fst ` set (cache ?c1)"
    unfolding set_cache_cache AList.dom_update by (simp add: linorder_not_le)
  from inv show ?thesis unfolding tracker_inv_def a b by blast
qed

lemma cleanup_tracker: "tracker_inv c \<Longrightarrow> tracker_inv (cleanup now c)"
  unfolding tracker_inv_def cleanup_def cleanupLoop_cache cleanupLoop_accessPatterns
  by (rule filter_keys_subset)

lemma clear_tracker: "tracker_inv (clear c)"
  by (simp add: tracker_inv_def clear_def)

text \<open>
  Claim C7 fails on two paths. \<open>invalidateByTag\<close> and the expiry branch of \<open>get\<close>
  delete the entry from the store and leave the access pattern of its key: after
  \<open>invalidateByTag\<close> of the tag of \<open>u1\<close>, and after a \<open>get\<close> of \<open>x\<close> 60 ms into a TTL
  of 50 ms, the key has no entry and still has its history.
\<close>

theorem tracker_outlives_entry:
  "tracker_inv tagged3
   \<and> map_of (cache (invalidateByTag ''user'' tagged3)) ''u1'' = None
   \<and> map_of (accessPatterns (invalidateByTag ''user'' tagged3)) ''u1'' = Some [0]
   \<and> \<not> tracker_inv (invalidateByTag ''user'' tagged3)
   \<and> tracker_inv cacheX
   \<and> fst (get textPlatform 60 ''x'' cacheX) = None
   \<and> map_of (cache (snd (get textPlatform 60 ''x'' cacheX))) ''x'' = None
   \<and> map_of (accessPatterns (snd (get textPlatform 60 ''x'' cacheX))) ''x'' = Some [0]
   \<and> \<not> tracker_inv (snd (get textPlatform 60 ''x'' cacheX))"
  by code_simp

subsection \<open>The score\<close>

text \<open>
  Claim C8, as amended. The score is a sum of raw quantities with constant
  coefficients, none normalised and none configured: 0.3 for each millisecond of age,
  0.4 for each millisecond since the last access, 0.2 divided by the access count plus
  one, 0.1 for each KiB of size, and 0.3 taken off for each access per second in the
  last minute. Of the state it reads the access patterns only, so no option of the
  constructor changes it.
\<close>

theorem score_raw_weights:
  "score now c k entry =
       (3 / 10) * rat_of_int (now - timestamp entry)
     + (4 / 10) * rat_of_int (now - lastAccessed entry)
     + (2 / 10) / (rat_of_nat (accessCount entry) + 1)
     + (1 / 10) * (rat_of_nat (size_entry entry) / 1024)
     - (3 / 10) * getAccessFrequency now k c
   \<and> score now c k (entry\<lparr>timestamp := timestamp entry - d\<rparr>)
       = score now c k entry + (3 / 10) * rat_of_int d
   \<and> score now c k (entry\<lparr>lastAccessed := lastAccessed entry - d\<rparr>)
       = score now c k entry + (4 / 10) * rat_of_int d
   \<and> score now c k (entry\<lparr>size_entry := size_entry entry + 1024 * n\<rparr>)
       = score now c k entry + (1 / 10) * rat_of_nat n
   \<and> (accessPatterns c' = accessPatterns c \<longrightarrow> score now c' k entry = score now c k entry)"
  by (simp add: score_def Let_def getAccessFrequency_def algebra_simps diff_divide_distrib add_divide_distrib)

theorem score_raw_weights_witness:
  "accessPatterns (SmartCache_new options50 :: string SmartCache) = accessPatterns cache3
   \<and> maxSize (SmartCache_new options50 :: string SmartCache) \<noteq> maxSize cache3
   \<and> score 1000 (SmartCache_new options50) ''a'' (fresh ''A'' 3 0)
       = score 1000 cache3 ''a'' (fresh ''A'' 3 0)"
proof -
  have h: "accessPatterns (SmartCache_new options50 :: string SmartCache) = accessPatterns cache3"
    by (simp add: cache3_def new_fields)
  have m: "maxSize (SmartCache_new options50 :: string SmartCache) \<noteq> maxSize cache3"
    by (simp add: cache3_def new_fields maxSize_of_def options50_def options3_def)
  from score_raw_weights [of 1000 cache3 "''a''" "fresh ''A'' 3 0" 0 0 "SmartCache_new options50"] h m
  show ?thesis by blast
qed

text \<open>
  An entry that is one second old and was never read has a score above 700, where a
  sum of four signals in \<open>[0, 1]\<close> with the weights 0.4, 0.3, 0.2 and 0.1 is at most 1.
\<close>

theorem score_not_normalised_counterexample:
  "score 1000 cache3 ''a'' (fresh ''A'' 3 0) = 700 + 1 / 5 + 3 / 10240
   \<and> \<not> score 1000 cache3 ''a'' (fresh ''A'' 3 0) \<le> 4 / 10 + 3 / 10 + 2 / 10 + 1 / 10"
  by code_simp

subsection \<open>How an entry leaves the store\<close>

text \<open>\<open>mget\<close> changes the state as the \<open>get\<close> calls of its keys do, one after the other.\<close>

lemma mget_as_gets: "snd (mgetLoop P now ks res c) = run P (map (CallGet now) ks) c"
  by (induction ks arbitrary: res c) (auto split: option.splits)









end
